theory Spec2Isabelle
  imports
    Complex_Main
    "HOL-Library.Char_ord"
    "HOL-Library.List_Lexorder"
    "HOL-Library.Log_Nat"
    "HOL-Library.Multiset"
    "HOL-Library.Signed_Division"
begin

section \<open>The bookstore query script\<close>

text \<open>
  The program is \<^verbatim>\<open>queries.js\<close>, a mongosh script over the collection
  \<^verbatim>\<open>db.books\<close>. Its own code is the pagination helper \<^verbatim>\<open>showPage\<close>
  and the query, update, delete and aggregation descriptors it hands to the document
  store. The store runs them; its operations are modelled below with the behaviour
  MongoDB documents for them, on a collection held as the list of its documents in
  the order in which the store reads them.

  Numbers: JavaScript and the store compute on binary64 floating-point numbers. A
  number is modelled by the rational it denotes, and \<open>binary64_round\<close> below is
  the rounding of an exact result to the nearest binary64 number. Years and counts
  are integers. The model of \<^verbatim>\<open>showPage\<close> computes its skip with integers;
  \<open>showPage_skip\<close> is the same line with the rounding of JavaScript, and the two
  agree as long as the skip is a safe integer (below \<open>2 ^ 53\<close> in magnitude).
\<close>

subsection \<open>Binary64 numbers\<close>

text \<open>
  A finite binary64 number is \<open>m * 2 ^ e\<close> with an integer \<open>m\<close> of magnitude
  below \<open>2 ^ 53\<close> and \<open>-1074 \<le> e \<le> 971\<close>. An exact result is rounded to the
  nearest such number, and to the one with the even \<open>m\<close> when two are equally
  near. \<open>floor_log2\<close> is the binary exponent of a positive rational and
  \<open>binary64_round\<close> the rounding; results of magnitude \<open>2 ^ 1024\<close> and more,
  which IEEE 754 makes infinite, are not numbers of this model, and
  \<open>is_binary64\<close> excludes them.
\<close>

definition round_half_even :: "rat \<Rightarrow> int" where
  "round_half_even x =
     (let f = \<lfloor>x\<rfloor>; r = x - of_int f in
      if r < 1 / 2 then f else if 1 / 2 < r then f + 1 else if even f then f else f + 1)"

text \<open>For a positive \<open>a\<close>, the integer \<open>k\<close> with \<open>2 ^ k \<le> a < 2 ^ (k + 1)\<close>.\<close>

definition floor_log2 :: "rat \<Rightarrow> int" where
  "floor_log2 a = (if 1 \<le> a then bitlen \<lfloor>a\<rfloor> - 1 else - bitlen (\<lceil>1 / a\<rceil> - 1))"

definition binary64_round :: "rat \<Rightarrow> rat" where
  "binary64_round q =
     (if q = 0 then 0
      else let e = max (floor_log2 \<bar>q\<bar> - 52) (- 1074);
               m = round_half_even (\<bar>q\<bar> / 2 powi e)
           in sgn q * of_int m * 2 powi e)"

definition is_binary64 :: "rat \<Rightarrow> bool" where
  "is_binary64 q \<longleftrightarrow> binary64_round q = q \<and> \<bar>q\<bar> < 2 ^ 1024"

text \<open>The arithmetic of JavaScript: the exact result, rounded.\<close>

definition js_minus :: "rat \<Rightarrow> rat \<Rightarrow> rat" where
  "js_minus a b = binary64_round (a - b)"

definition js_times :: "rat \<Rightarrow> rat \<Rightarrow> rat" where
  "js_times a b = binary64_round (a * b)"

subsection \<open>Documents\<close>

record book =
  title :: string
  author :: string
  genre :: string
  published_year :: int
  price :: rat
  in_stock :: bool

type_synonym collection = "book list"

text \<open>The projection \<^verbatim>\<open>{ title: 1, author: 1, price: 1, _id: 0 }\<close>.\<close>

record title_author_price =
  tap_title :: string
  tap_author :: string
  tap_price :: rat

definition project_title_author_price :: "book \<Rightarrow> title_author_price" where
  "project_title_author_price b =
     \<lparr>tap_title = title b, tap_author = author b, tap_price = price b\<rparr>"

text \<open>The projection \<^verbatim>\<open>{ title: 1, price: 1, _id: 0 }\<close>.\<close>

record title_price =
  tp_title :: string
  tp_price :: rat

definition project_title_price :: "book \<Rightarrow> title_price" where
  "project_title_price b = \<lparr>tp_title = title b, tp_price = price b\<rparr>"

subsection \<open>The store: cursors\<close>

text \<open>
  \<^verbatim>\<open>find(filter, projection)\<close> makes a cursor; \<^verbatim>\<open>sort\<close>, \<^verbatim>\<open>skip\<close> and
  \<^verbatim>\<open>limit\<close> only record their argument in it, and \<^verbatim>\<open>toArray\<close> runs it: the
  store filters, sorts, skips, limits and projects, in this order whatever the order
  of the calls. A sort on a string field compares the strings bytewise. The store
  promises no order among documents with equal keys: they come out in the order in
  which this run of the query reads them, which is the order of the list the call is
  given. Two calls on one collection may read it in two orders; they are calls on
  two lists with the same documents (\<open>same_documents\<close>). The store refuses a
  negative skip. A limit of \<open>0\<close> is no limit, and a negative limit counts as its
  absolute value.
\<close>

definition same_documents :: "collection \<Rightarrow> collection \<Rightarrow> bool" where
  "same_documents run1 run2 \<longleftrightarrow> mset run1 = mset run2"

datatype sort_spec = Natural | TitleAscending

datatype store_error = BadSkip int

record 'r cursor =
  c_docs :: collection
  c_filter :: "book \<Rightarrow> bool"
  c_projection :: "book \<Rightarrow> 'r"
  c_sort :: sort_spec
  c_skip :: int
  c_limit :: int

definition coll_find :: "collection \<Rightarrow> (book \<Rightarrow> bool) \<Rightarrow> (book \<Rightarrow> 'r) \<Rightarrow> 'r cursor" where
  "coll_find books flt proj =
     \<lparr>c_docs = books, c_filter = flt, c_projection = proj, c_sort = Natural,
      c_skip = 0, c_limit = 0\<rparr>"

definition cursor_sort :: "sort_spec \<Rightarrow> 'r cursor \<Rightarrow> 'r cursor" where
  "cursor_sort s c = c\<lparr>c_sort := s\<rparr>"

definition cursor_skip :: "int \<Rightarrow> 'r cursor \<Rightarrow> 'r cursor" where
  "cursor_skip n c = c\<lparr>c_skip := n\<rparr>"

definition cursor_limit :: "int \<Rightarrow> 'r cursor \<Rightarrow> 'r cursor" where
  "cursor_limit n c = c\<lparr>c_limit := n\<rparr>"

fun apply_sort :: "sort_spec \<Rightarrow> book list \<Rightarrow> book list" where
  "apply_sort Natural bs = bs"
| "apply_sort TitleAscending bs = sort_key title bs"

definition apply_limit :: "int \<Rightarrow> 'a list \<Rightarrow> 'a list" where
  "apply_limit n xs = (if n = 0 then xs else take (nat \<bar>n\<bar>) xs)"

definition toArray :: "'r cursor \<Rightarrow> store_error + 'r list" where
  "toArray c =
     (if c_skip c < 0 then Inl (BadSkip (c_skip c))
      else Inr (map (c_projection c)
             (apply_limit (c_limit c)
               (drop (nat (c_skip c))
                 (apply_sort (c_sort c) (filter (c_filter c) (c_docs c)))))))"

subsection \<open>Pagination (lines 62 to 70)\<close>

text \<open>
  \<^verbatim>\<open>
  const pageSize = 5;
  function showPage(page) {
    const skip = (page - 1) * pageSize;
    return db.books.find({}, { title: 1, author: 1, price: 1, _id: 0 })
      .sort({ title: 1 })
      .skip(skip)
      .limit(pageSize)
      .toArray();
  }
  \<close>
  \<open>showPage_cursor\<close> is the cursor the function builds, \<open>showPage\<close> what
  \<^verbatim>\<open>toArray\<close> returns for it. The collection \<^verbatim>\<open>db.books\<close> is the first argument.
  The skip is computed on integers here, which is what line 64 computes for every
  page whose skip is a safe integer; \<open>showPage_skip\<close> below is the line with its
  rounding.
\<close>

definition pageSize :: int where
  "pageSize = 5"

definition showPage_cursor :: "collection \<Rightarrow> int \<Rightarrow> title_author_price cursor" where
  "showPage_cursor books page =
     (let skip = (page - 1) * pageSize in
      cursor_limit pageSize
        (cursor_skip skip
          (cursor_sort TitleAscending
            (coll_find books (\<lambda>b. True) project_title_author_price))))"

definition showPage :: "collection \<Rightarrow> int \<Rightarrow> store_error + title_author_price list" where
  "showPage books page = toArray (showPage_cursor books page)"

text \<open>
  Line 64, \<^verbatim>\<open>(page - 1) * pageSize\<close>, as JavaScript computes it: the difference
  is rounded, then the product.
\<close>

definition showPage_skip :: "rat \<Rightarrow> rat" where
  "showPage_skip page = js_times (js_minus page 1) (of_int pageSize)"

text \<open>
  The whole result set in title order, projected: the script's query without the
  \<^verbatim>\<open>skip\<close> and the \<^verbatim>\<open>limit\<close>. The pages are windows of this list.
\<close>

definition sorted_projection :: "collection \<Rightarrow> title_author_price list" where
  "sorted_projection books = map project_title_author_price (sort_key title books)"

subsection \<open>Update and delete (lines 28 to 40)\<close>

text \<open>
  Modelled from the spec: the store's \<^verbatim>\<open>updateOne\<close> and \<^verbatim>\<open>deleteOne\<close>, which
  are not code of the script (spec sections 4.1 and 6, and the store's documentation).
  \<^verbatim>\<open>updateOne(filter, update)\<close> changes the first document, in the order in which
  the store reads the collection, that matches the filter, and no other; without the
  \<^verbatim>\<open>upsert\<close> option, which the script does not give, it inserts nothing. It reports how many documents matched (0 or 1)
  and how many it changed: a matched document that already holds the new value counts
  as matched, not as modified. \<^verbatim>\<open>deleteOne(filter)\<close> removes the first matching
  document and reports how many it removed. Both return the new collection here.
\<close>

record update_result =
  matchedCount :: nat
  modifiedCount :: nat

fun updateOne :: "(book \<Rightarrow> bool) \<Rightarrow> (book \<Rightarrow> book) \<Rightarrow> collection \<Rightarrow> update_result \<times> collection" where
  "updateOne flt upd [] = (\<lparr>matchedCount = 0, modifiedCount = 0\<rparr>, [])"
| "updateOne flt upd (b # bs) =
     (if flt b
      then (\<lparr>matchedCount = 1, modifiedCount = (if upd b = b then 0 else 1)\<rparr>, upd b # bs)
      else (fst (updateOne flt upd bs), b # snd (updateOne flt upd bs)))"

fun deleteOne :: "(book \<Rightarrow> bool) \<Rightarrow> collection \<Rightarrow> nat \<times> collection" where
  "deleteOne flt [] = (0, [])"
| "deleteOne flt (b # bs) =
     (if flt b then (1, bs)
      else (fst (deleteOne flt bs), b # snd (deleteOne flt bs)))"

text \<open>
  \<^verbatim>\<open>
  db.books.updateOne({ title: "The Silent River" }, { $set: { price: 14.99 } });
  db.books.find({ title: "The Silent River" }, { title: 1, price: 1, _id: 0 })
  db.books.deleteOne({ title: "Rust and Roses" });
  db.books.find({ title: "Rust and Roses" })
  \<close>
  The script gives each statement with an example title and price; the definitions
  take them as arguments. The literal \<^verbatim>\<open>14.99\<close> is the binary64 number nearest
  to it.
\<close>

definition updatePrice :: "string \<Rightarrow> rat \<Rightarrow> collection \<Rightarrow> update_result \<times> collection" where
  "updatePrice t newPrice books =
     updateOne (\<lambda>b. title b = t) (\<lambda>b. b\<lparr>price := newPrice\<rparr>) books"

definition verifyUpdate :: "string \<Rightarrow> collection \<Rightarrow> store_error + title_price list" where
  "verifyUpdate t books = toArray (coll_find books (\<lambda>b. title b = t) project_title_price)"

definition deleteByTitle :: "string \<Rightarrow> collection \<Rightarrow> nat \<times> collection" where
  "deleteByTitle t books = deleteOne (\<lambda>b. title b = t) books"

definition verifyDeletion :: "string \<Rightarrow> collection \<Rightarrow> store_error + book list" where
  "verifyDeletion t books = toArray (coll_find books (\<lambda>b. title b = t) (\<lambda>b. b))"

definition script_update :: "collection \<Rightarrow> update_result \<times> collection" where
  "script_update books = updatePrice ''The Silent River'' (binary64_round (1499 / 100)) books"

definition script_delete :: "collection \<Rightarrow> nat \<times> collection" where
  "script_delete books = deleteByTitle ''Rust and Roses'' books"

subsection \<open>The store: aggregation stages\<close>

text \<open>
  \<^verbatim>\<open>$group\<close> makes one output document for each distinct value of the key
  expression, from the documents that have this value; the store promises no order
  for its output, which is here the order in which the values first occur.
  \<^verbatim>\<open>{ $sum: 1 }\<close> counts the documents of a group. \<^verbatim>\<open>$avg\<close> is the mean of a
  numeric field over them in binary64 arithmetic: the values are added one after the
  other, each sum rounded, and the total is divided by the count, the quotient
  rounded (a group is never empty, and its count is a number far below \<open>2 ^ 53\<close>).
  \<open>exact_sums\<close> says that none of these sums is changed by its rounding; the
  compensated sum the store uses gives the same total then. \<^verbatim>\<open>$sort\<close> with \<open>1\<close> sorts
  ascending, with \<open>-1\<close> descending, documents with equal keys staying in the order
  they came in; \<^verbatim>\<open>$limit\<close> keeps the first documents. \<^verbatim>\<open>$mod\<close> is the remainder
  of the truncating division: its sign is the dividend's.
\<close>

fun distinct_keys :: "'k list \<Rightarrow> 'k list" where
  "distinct_keys [] = []"
| "distinct_keys (k # ks) = k # filter (\<lambda>k'. k' \<noteq> k) (distinct_keys ks)"

definition group_stage :: "('d \<Rightarrow> 'k) \<Rightarrow> ('k \<Rightarrow> 'd list \<Rightarrow> 'r) \<Rightarrow> 'd list \<Rightarrow> 'r list" where
  "group_stage key row docs =
     map (\<lambda>k. row k (filter (\<lambda>d. key d = k) docs)) (distinct_keys (map key docs))"

definition acc_count :: "'d list \<Rightarrow> nat" where
  "acc_count docs = sum_list (map (\<lambda>d. 1) docs)"




definition sort_stage_asc :: "('r \<Rightarrow> 'k::linorder) \<Rightarrow> 'r list \<Rightarrow> 'r list" where
  "sort_stage_asc key rows = sort_key key rows"

definition sort_stage_desc :: "('r \<Rightarrow> 'k::linorder) \<Rightarrow> 'r list \<Rightarrow> 'r list" where
  "sort_stage_desc key rows = rev (sort_key key (rev rows))"

definition limit_stage :: "nat \<Rightarrow> 'r list \<Rightarrow> 'r list" where
  "limit_stage n rows = take n rows"

definition mongo_mod :: "int \<Rightarrow> int \<Rightarrow> int" where
  "mongo_mod a b = a smod b"

subsection \<open>Average price by genre (lines 81 to 90)\<close>



subsection \<open>Author with the most books (lines 93 to 97)\<close>

text \<open>
  \<^verbatim>\<open>
  db.books.aggregate([
    { $group: { _id: "$author", count: { $sum: 1 } } },
    { $sort: { count: -1 } },
    { $limit: 1 }
  ])
  \<close>
\<close>

record author_row =
  ar_author :: string
  ar_count :: nat

definition topAuthorByBookCount :: "collection \<Rightarrow> author_row list" where
  "topAuthorByBookCount books =
     limit_stage 1
       (sort_stage_desc ar_count
          (group_stage author (\<lambda>a docs. \<lparr>ar_author = a, ar_count = acc_count docs\<rparr>) books))"

subsection \<open>Books by decade (lines 100 to 115)\<close>

text \<open>
  \<^verbatim>\<open>
  db.books.aggregate([
    { $project: { title: 1, published_year: 1,
        decade: { $subtract: [ "$published_year", { $mod: [ "$published_year", 10 ] } ] } } },
    { $group: { _id: "$decade", count: { $sum: 1 } } },
    { $sort: { _id: 1 } }
  ])
  \<close>
\<close>

record decade_doc =
  dd_title :: string
  dd_published_year :: int
  dd_decade :: int

record decade_row =
  dr_decade :: int
  dr_count :: nat

definition decade_of :: "int \<Rightarrow> int" where
  "decade_of y = y - mongo_mod y 10"

definition project_decade :: "book \<Rightarrow> decade_doc" where
  "project_decade b =
     \<lparr>dd_title = title b, dd_published_year = published_year b,
      dd_decade = decade_of (published_year b)\<rparr>"

definition countByDecade :: "collection \<Rightarrow> decade_row list" where
  "countByDecade books =
     sort_stage_asc dr_decade
       (group_stage dd_decade (\<lambda>d docs. \<lparr>dr_decade = d, dr_count = acc_count docs\<rparr>)
          (map project_decade books))"

subsection \<open>Measures and example collections\<close>

text \<open>The number of rows on a page; a call the store refuses has none.\<close>

definition page_length :: "collection \<Rightarrow> int \<Rightarrow> nat" where
  "page_length books k = (case showPage books k of Inl e \<Rightarrow> 0 | Inr rows \<Rightarrow> length rows)"

definition three_books :: collection where
  "three_books =
     [\<lparr>title = ''C'', author = ''Ann'', genre = ''Fantasy'', published_year = 2001,
       price = 12, in_stock = True\<rparr>,
      \<lparr>title = ''A'', author = ''Bo'', genre = ''Crime'', published_year = 2015,
       price = 10, in_stock = False\<rparr>,
      \<lparr>title = ''B'', author = ''Ann'', genre = ''Fantasy'', published_year = 2020,
       price = 20, in_stock = True\<rparr>]"

definition three_rows :: "title_author_price list" where
  "three_rows =
     [\<lparr>tap_title = ''A'', tap_author = ''Bo'', tap_price = 10\<rparr>,
      \<lparr>tap_title = ''B'', tap_author = ''Ann'', tap_price = 20\<rparr>,
      \<lparr>tap_title = ''C'', tap_author = ''Ann'', tap_price = 12\<rparr>]"

definition seven_books :: collection where
  "seven_books =
     [\<lparr>title = ''G'', author = ''Ann'', genre = ''Fantasy'', published_year = 1994,
       price = 7, in_stock = True\<rparr>,
      \<lparr>title = ''A'', author = ''Bo'', genre = ''Crime'', published_year = 2015,
       price = 10, in_stock = False\<rparr>,
      \<lparr>title = ''F'', author = ''Ann'', genre = ''Fantasy'', published_year = 2020,
       price = 20, in_stock = True\<rparr>,
      \<lparr>title = ''B'', author = ''Cy'', genre = ''Crime'', published_year = 2011,
       price = 14, in_stock = True\<rparr>,
      \<lparr>title = ''E'', author = ''Ann'', genre = ''History'', published_year = 2019,
       price = 30, in_stock = False\<rparr>,
      \<lparr>title = ''C'', author = ''Bo'', genre = ''Fantasy'', published_year = 1999,
       price = 9, in_stock = True\<rparr>,
      \<lparr>title = ''D'', author = ''Cy'', genre = ''History'', published_year = 2010,
       price = 16, in_stock = True\<rparr>]"

definition seven_rows :: "title_author_price list" where
  "seven_rows =
     [\<lparr>tap_title = ''A'', tap_author = ''Bo'', tap_price = 10\<rparr>,
      \<lparr>tap_title = ''B'', tap_author = ''Cy'', tap_price = 14\<rparr>,
      \<lparr>tap_title = ''C'', tap_author = ''Bo'', tap_price = 9\<rparr>,
      \<lparr>tap_title = ''D'', tap_author = ''Cy'', tap_price = 16\<rparr>,
      \<lparr>tap_title = ''E'', tap_author = ''Ann'', tap_price = 30\<rparr>,
      \<lparr>tap_title = ''F'', tap_author = ''Ann'', tap_price = 20\<rparr>,
      \<lparr>tap_title = ''G'', tap_author = ''Ann'', tap_price = 7\<rparr>]"


text \<open>Six editions under one title, told apart by their years and prices.\<close>

definition edition :: "int \<Rightarrow> book" where
  "edition n =
     \<lparr>title = ''Atlas'', author = ''Ann'', genre = ''Maps'', published_year = 2000 + n,
      price = of_int n, in_stock = True\<rparr>"

definition edition_row :: "int \<Rightarrow> title_author_price" where
  "edition_row n = \<lparr>tap_title = ''Atlas'', tap_author = ''Ann'', tap_price = of_int n\<rparr>"

definition six_editions :: collection where
  "six_editions = [edition 1, edition 2, edition 3, edition 4, edition 5, edition 6]"

text \<open>Two documents with the same title: the store does not forbid them.\<close>

definition first_copy :: book where
  "first_copy =
     \<lparr>title = ''Rust and Roses'', author = ''Ann'', genre = ''Romance'',
      published_year = 2012, price = 11, in_stock = True\<rparr>"

definition second_copy :: book where
  "second_copy =
     \<lparr>title = ''Rust and Roses'', author = ''Bo'', genre = ''Romance'',
      published_year = 2018, price = 13, in_stock = False\<rparr>"

definition two_copies :: collection where
  "two_copies = [first_copy, second_copy]"

section \<open>Auxiliary facts\<close>

subsection \<open>Pages as windows\<close>

lemma showPage_window:
  "1 \<le> page \<Longrightarrow>
   showPage books page = Inr (take 5 (drop (nat ((page - 1) * 5)) (sorted_projection books)))"
  by (simp add: showPage_def showPage_cursor_def toArray_def apply_limit_def pageSize_def
      coll_find_def cursor_sort_def cursor_skip_def cursor_limit_def sorted_projection_def
      take_map drop_map)

lemma showPage_rejected:
  "page < 1 \<Longrightarrow> showPage books page = Inl (BadSkip ((page - 1) * 5))"
  by (simp add: showPage_def showPage_cursor_def toArray_def pageSize_def
      coll_find_def cursor_sort_def cursor_skip_def cursor_limit_def)

lemma showPage_cursor_fields:
  "c_skip (showPage_cursor books page) = (page - 1) * 5"
  "c_limit (showPage_cursor books page) = 5"
  "c_sort (showPage_cursor books page) = TitleAscending"
  "c_docs (showPage_cursor books page) = books"
  by (simp_all add: showPage_cursor_def pageSize_def coll_find_def cursor_sort_def
      cursor_skip_def cursor_limit_def)

lemma length_sorted_projection: "length (sorted_projection books) = length books"
  by (simp add: sorted_projection_def)

lemma sorted_projection_titles: "sorted (map tap_title (sorted_projection books))"
proof -
  have "map tap_title (sorted_projection books) = map title (sort_key title books)"
    by (simp add: sorted_projection_def project_title_author_price_def comp_def)
  then show ?thesis by simp
qed

lemma mset_sorted_projection:
  "mset (sorted_projection books) = image_mset project_title_author_price (mset books)"
  by (simp add: sorted_projection_def)

lemma page_length_eq:
  "1 \<le> k \<Longrightarrow> page_length books k = min 5 (length books - 5 * nat (k - 1))"
  by (simp add: page_length_def showPage_window length_sorted_projection nat_mult_distrib
      mult.commute)

lemma ceiling_fifth: "\<lceil>real n / 5\<rceil> = (int n + 4) div 5"
proof -
  have "\<lceil>real n / 5\<rceil> = \<lceil>of_int (int n) / (of_int 5 :: real)\<rceil>" by simp
  also have "\<dots> = - (- int n div 5)" by (rule ceiling_divide_eq_div)
  also have "\<dots> = (int n + 4) div 5" by presburger
  finally show ?thesis .
qed

lemma page_nonempty_iff:
  assumes "1 \<le> k"
  shows "page_length books k \<noteq> 0 \<longleftrightarrow> k \<le> \<lceil>real (length books) / 5\<rceil>"
proof -
  have "page_length books k \<noteq> 0 \<longleftrightarrow> 5 * nat (k - 1) < length books"
    using assms by (simp add: page_length_eq)
  also have "\<dots> \<longleftrightarrow> int (5 * nat (k - 1)) < int (length books)"
    by (simp only: of_nat_less_iff)
  also have "\<dots> \<longleftrightarrow> 5 * (k - 1) < int (length books)"
    using assms by simp
  also have "\<dots> \<longleftrightarrow> k \<le> (int (length books) + 4) div 5"
    by presburger
  finally show ?thesis by (simp only: ceiling_fifth)
qed

lemma page_full_iff:
  assumes "1 \<le> k"
  shows "page_length books k = 5 \<longleftrightarrow> k \<le> int (length books) div 5"
proof -
  have "page_length books k = 5 \<longleftrightarrow> 5 * nat (k - 1) + 5 \<le> length books"
    using assms by (simp add: page_length_eq) linarith
  also have "\<dots> \<longleftrightarrow> 5 * k \<le> int (length books)"
    using assms by linarith
  also have "\<dots> \<longleftrightarrow> k \<le> int (length books) div 5"
    by presburger
  finally show ?thesis .
qed

lemma sum_page_lengths:
  "(\<Sum>k = 1..m. page_length books (int k)) = min (length books) (5 * m)"
proof (induction m)
  case 0
  show ?case by simp
next
  case (Suc m)
  have "page_length books (int (Suc m)) = min 5 (length books - 5 * m)"
    by (simp add: page_length_eq)
  with Suc show ?case by simp
qed

lemma sorted_projection_three: "sorted_projection three_books = three_rows"
  by code_simp

lemma sorted_projection_seven: "sorted_projection seven_books = seven_rows"
  by code_simp

subsection \<open>Groups and sorted rows\<close>

lemma set_distinct_keys: "set (distinct_keys ks) = set ks"
  by (induction ks) auto

lemma distinct_distinct_keys: "distinct (distinct_keys ks)"
  by (induction ks) (auto simp add: set_distinct_keys)

lemma acc_count_length: "acc_count docs = length docs"
  by (induction docs) (simp_all add: acc_count_def)

lemma sum_group_sizes:
  assumes "finite S" and "key ` set docs \<subseteq> S"
  shows "(\<Sum>k\<in>S. length (filter (\<lambda>d. key d = k) docs)) = length docs"
  using assms(2)
proof (induction docs)
  case Nil
  show ?case by simp
next
  case (Cons d ds)
  have "(\<Sum>k\<in>S. length (filter (\<lambda>x. key x = k) (d # ds)))
      = (\<Sum>k\<in>S. (if k = key d then 1 else 0) + length (filter (\<lambda>x. key x = k) ds))"
    by (rule sum.cong) auto
  also have "\<dots> = (\<Sum>k\<in>S. if k = key d then 1 else 0)
      + (\<Sum>k\<in>S. length (filter (\<lambda>x. key x = k) ds))"
    by (rule sum.distrib)
  also have "(\<Sum>k\<in>S. if k = key d then 1 else 0) = (1::nat)"
    using assms(1) Cons.prems by (simp add: sum.delta)
  also have "(\<Sum>k\<in>S. length (filter (\<lambda>x. key x = k) ds)) = length ds"
    using Cons by simp
  finally show ?case by simp
qed

lemma group_sizes_total:
  "(\<Sum>k\<leftarrow>distinct_keys (map key docs). length (filter (\<lambda>d. key d = k) docs)) = length docs"
proof -
  have "(\<Sum>k\<leftarrow>distinct_keys (map key docs). length (filter (\<lambda>d. key d = k) docs))
      = (\<Sum>k\<in>set (distinct_keys (map key docs)). length (filter (\<lambda>d. key d = k) docs))"
    by (rule sum_list_distinct_conv_sum_set) (rule distinct_distinct_keys)
  also have "\<dots> = length docs"
    by (rule sum_group_sizes) (simp_all add: set_distinct_keys)
  finally show ?thesis .
qed


lemma set_sort_stage_desc: "set (sort_stage_desc key rows) = set rows"
  by (simp add: sort_stage_desc_def)

lemma sorted_sort_stage_desc: "sorted (rev (map key (sort_stage_desc key rows)))"
  by (simp add: sort_stage_desc_def rev_map)

lemma descending_head:
  assumes "sorted (rev (map key rows))" and "r \<in> set rows"
  shows "key r \<le> key (hd rows)"
proof (cases rows)
  case Nil
  with assms(2) show ?thesis by simp
next
  case (Cons x xs)
  with assms show ?thesis by (auto simp add: sorted_append)
qed

lemma mset_map_sort_key: "mset (map f (sort_key k xs)) = mset (map f xs)"
  by simp

lemma distinct_map_sort_key: "distinct (map f (sort_key k xs)) = distinct (map f xs)"
  by (rule mset_eq_imp_distinct_iff) (rule mset_map_sort_key)

lemma sum_list_map_sort_key:
  "sum_list (map f (sort_key k xs)) = sum_list (map (f :: 'a \<Rightarrow> nat) xs)"
proof -
  have "sum_mset (mset (map f (sort_key k xs))) = sum_mset (mset (map f xs))"
    by (simp only: mset_map_sort_key)
  then show ?thesis by (simp only: sum_mset_sum_list)
qed

lemma sort_key_unique:
  assumes "mset ys = mset xs" and "distinct (map f xs)"
  shows "sort_key f ys = sort_key f xs"
proof -
  have sets: "set ys = set xs"
    using assms(1) by (rule mset_eq_setD)
  have "mset (map f ys) = mset (map f xs)"
    by (simp only: mset_map assms(1))
  then have "distinct (map f ys) = distinct (map f xs)"
    by (rule mset_eq_imp_distinct_iff)
  with assms(2) have dys: "distinct (map f ys)"
    by simp
  have dx: "distinct (map f (sort_key f xs))"
    using assms(2) by (simp only: distinct_map_sort_key)
  have dy: "distinct (map f (sort_key f ys))"
    using dys by (simp only: distinct_map_sort_key)
  have st: "set (map f (sort_key f ys)) = set (map f (sort_key f xs))"
    by (simp only: set_map set_sort sets)
  have sx: "sorted (map f (sort_key f xs))" and sy: "sorted (map f (sort_key f ys))"
    by (rule sorted_sort_key)+
  from sy dy sx dx st have keys: "map f (sort_key f ys) = map f (sort_key f xs)"
    by (rule sorted_distinct_set_unique)
  from assms(2) have "inj_on f (set xs)"
    by (simp only: distinct_map)
  then have inj: "inj_on f (set (sort_key f ys) \<union> set (sort_key f xs))"
    by (simp only: set_sort sets Un_absorb)
  from inj keys show ?thesis
    by (simp only: inj_on_map_eq_map)
qed


lemma decade_of_nonneg: "0 \<le> y \<Longrightarrow> decade_of y = y - y mod 10"
  by (simp add: decade_of_def mongo_mod_def signed_modulo_int_def sgn_if)

lemma countByDecade_eq:
  "countByDecade books =
     sort_key dr_decade
       (map (\<lambda>d. \<lparr>dr_decade = d,
                   dr_count = length (filter (\<lambda>b. decade_of (published_year b) = d) books)\<rparr>)
          (distinct_keys (map (\<lambda>b. decade_of (published_year b)) books)))"
  by (simp add: countByDecade_def sort_stage_asc_def group_stage_def acc_count_length
      filter_map comp_def project_decade_def)


lemma topAuthor_groups:
  "topAuthorByBookCount books =
     take 1 (sort_stage_desc ar_count
       (map (\<lambda>a. \<lparr>ar_author = a, ar_count = length (filter (\<lambda>b. author b = a) books)\<rparr>)
          (distinct_keys (map author books))))"
  by (simp add: topAuthorByBookCount_def limit_stage_def group_stage_def acc_count_length)

subsection \<open>Rounding that changes nothing\<close>

lemma round_half_even_of_int: "round_half_even (of_int m) = m"
  by (simp add: round_half_even_def)

lemma binary64_round_int:
  assumes "\<bar>n\<bar> < 2 ^ 53"
  shows "binary64_round (of_int n) = of_int n"
proof (cases "n = 0")
  case True
  then show ?thesis by (simp add: binary64_round_def)
next
  case False
  define a where "a = \<bar>n\<bar>"
  have apos: "0 < a" and alt: "a < 2 ^ 53"
    using False assms by (simp_all add: a_def)
  have abs_q: "\<bar>of_int n :: rat\<bar> = of_int a"
    by (simp add: a_def)
  have fl: "floor_log2 (of_int a) = bitlen a - 1"
    using apos by (simp add: floor_log2_def)
  have hi: "bitlen a \<le> 53"
    using alt bitlen_le_iff_power [of a 53] by simp
  have lo: "1 \<le> bitlen a"
    using apos bitlen_ge_iff_power [of 1 a] by simp
  define k where "k = nat (53 - bitlen a)"
  have e: "max (bitlen a - 53) (- 1074) = - int k"
    using hi lo by (simp add: k_def)
  have pw: "(2::rat) powi (- int k) = 1 / 2 ^ k"
    by (simp add: power_int_def field_simps)
  have scaled: "(of_int a :: rat) / 2 powi (- int k) = of_int (a * 2 ^ k)"
    by (simp add: pw)
  have m: "round_half_even ((of_int a :: rat) / 2 powi (- int k)) = a * 2 ^ k"
    by (simp only: scaled round_half_even_of_int)
  have "binary64_round (of_int n) = sgn (of_int n) * of_int (a * 2 ^ k) * (2::rat) powi (- int k)"
    using False by (simp add: binary64_round_def abs_q fl e m Let_def)
  also have "\<dots> = sgn (of_int n) * (of_int a :: rat)"
    by (simp add: pw)
  also have "\<dots> = of_int n"
    by (simp add: a_def sgn_if)
  finally show ?thesis .
qed

lemma is_binary64_int:
  assumes "\<bar>n\<bar> < 2 ^ 53"
  shows "is_binary64 (of_int n)"
proof -
  have "(2::int) ^ 53 < 2 ^ 1024"
    by (rule power_strict_increasing) simp_all
  with assms have "\<bar>n\<bar> < 2 ^ 1024"
    by (rule less_trans)
  then have "\<bar>of_int n :: rat\<bar> < of_int (2 ^ 1024)"
    by (simp only: of_int_abs [symmetric] of_int_less_iff)
  then have "\<bar>of_int n :: rat\<bar> < 2 ^ 1024"
    by simp
  with assms show ?thesis
    by (simp add: is_binary64_def binary64_round_int)
qed

lemma is_binary64_numeral:
  "numeral k < (2::int) ^ 53 \<Longrightarrow> is_binary64 (numeral k)"
  using is_binary64_int [of "numeral k"] by simp

lemma showPage_skip_exact:
  assumes "\<bar>(page - 1) * 5\<bar> < 2 ^ 53"
  shows "showPage_skip (of_int page) = of_int ((page - 1) * 5)"
proof -
  have grow: "x \<le> x * 5" if "0 \<le> x" for x :: int
    using that by simp
  have "\<bar>page - 1\<bar> \<le> \<bar>page - 1\<bar> * 5"
    by (rule grow) (rule abs_ge_zero)
  also have "\<dots> = \<bar>(page - 1) * 5\<bar>"
    by (simp only: abs_mult abs_numeral)
  also have "\<dots> < 2 ^ 53"
    by (rule assms)
  finally have small: "\<bar>page - 1\<bar> < 2 ^ 53" .
  have "js_minus (of_int page) 1 = binary64_round (of_int (page - 1))"
    by (simp add: js_minus_def)
  also have "\<dots> = of_int (page - 1)"
    using small by (rule binary64_round_int)
  finally have d: "js_minus (of_int page) 1 = of_int (page - 1)" .
  have "showPage_skip (of_int page) = binary64_round (of_int ((page - 1) * 5))"
    by (simp add: showPage_skip_def d js_times_def pageSize_def)
  also have "\<dots> = of_int ((page - 1) * 5)"
    using assms by (rule binary64_round_int)
  finally show ?thesis .
qed



subsection \<open>The first match\<close>

lemma updateOne_docs:
  "snd (updateOne flt upd bs) =
     takeWhile (\<lambda>b. \<not> flt b) bs @
     (case dropWhile (\<lambda>b. \<not> flt b) bs of [] \<Rightarrow> [] | b # rest \<Rightarrow> upd b # rest)"
  by (induction bs) simp_all

lemma updateOne_length: "length (snd (updateOne flt upd bs)) = length bs"
  by (induction bs) simp_all

lemma updateOne_matched:
  "matchedCount (fst (updateOne flt upd bs)) = (if \<exists>b \<in> set bs. flt b then 1 else 0)"
  by (induction bs) simp_all

lemma updateOne_modified:
  "modifiedCount (fst (updateOne flt upd bs)) =
     (case dropWhile (\<lambda>b. \<not> flt b) bs of [] \<Rightarrow> 0 | b # rest \<Rightarrow> if upd b = b then 0 else 1)"
  by (induction bs) simp_all

lemma updateOne_modified_le:
  "modifiedCount (fst (updateOne flt upd bs)) \<le> matchedCount (fst (updateOne flt upd bs))"
  by (induction bs) simp_all

lemma updateOne_no_match:
  "\<forall>b \<in> set bs. \<not> flt b \<Longrightarrow> snd (updateOne flt upd bs) = bs"
  by (induction bs) simp_all

lemma updateOne_nth:
  "i < length bs \<Longrightarrow> snd (updateOne flt upd bs) ! i \<noteq> bs ! i \<Longrightarrow>
   flt (bs ! i) \<and> (\<forall>j < i. \<not> flt (bs ! j)) \<and> snd (updateOne flt upd bs) ! i = upd (bs ! i)"
proof (induction bs arbitrary: i)
  case Nil
  then show ?case by simp
next
  case (Cons b bs)
  show ?case
  proof (cases "flt b")
    case True
    with Cons.prems show ?thesis by (cases i) simp_all
  next
    case False
    show ?thesis
    proof (cases i)
      case 0
      with False Cons.prems show ?thesis by simp
    next
      case (Suc i')
      with False Cons.prems have "flt (bs ! i') \<and> (\<forall>j < i'. \<not> flt (bs ! j))
          \<and> snd (updateOne flt upd bs) ! i' = upd (bs ! i')"
        by (intro Cons.IH) simp_all
      with False Suc show ?thesis
        by (auto simp add: nth_Cons split: nat.splits)
    qed
  qed
qed

lemma updateOne_map_frame:
  "(\<And>b. f (upd b) = f b) \<Longrightarrow> map f (snd (updateOne flt upd bs)) = map f bs"
  by (induction bs) simp_all

lemma updateOne_filter_hit:
  assumes "\<exists>b \<in> set bs. flt b" and "\<And>b. flt b \<Longrightarrow> flt (upd b)"
  shows "\<exists>b rest. filter flt (snd (updateOne flt upd bs)) = upd b # rest \<and> flt b
     \<and> filter flt bs = b # rest"
  using assms(1)
proof (induction bs)
  case Nil
  then show ?case by simp
next
  case (Cons b bs)
  show ?case
  proof (cases "flt b")
    case True
    with assms(2) [of b] show ?thesis by simp
  next
    case False
    with Cons show ?thesis by simp
  qed
qed

lemma deleteOne_docs:
  "snd (deleteOne flt bs) =
     takeWhile (\<lambda>b. \<not> flt b) bs @ drop 1 (dropWhile (\<lambda>b. \<not> flt b) bs)"
  by (induction bs) simp_all

lemma deleteOne_count:
  "fst (deleteOne flt bs) = (if \<exists>b \<in> set bs. flt b then 1 else 0)"
  by (induction bs) simp_all

lemma deleteOne_length:
  "length (snd (deleteOne flt bs)) + fst (deleteOne flt bs) = length bs"
  by (induction bs) simp_all

lemma deleteOne_filter:
  "filter flt (snd (deleteOne flt bs)) = drop 1 (filter flt bs)"
  by (induction bs) simp_all

lemma deleteOne_others:
  "filter (\<lambda>b. \<not> flt b) (snd (deleteOne flt bs)) = filter (\<lambda>b. \<not> flt b) bs"
  by (induction bs) simp_all

section \<open>Pagination claims\<close>

text \<open>
  C1, as amended. The page size is not an argument of the helper: it is the constant
  5. For every page number of at least 1, \<open>showPage\<close> returns the window
  \<open>[offset, offset + 5)\<close>, with \<open>offset = (page - 1) * 5\<close>, of the whole
  collection sorted by title ascending and projected to title, author and price. The
  window has at most 5 rows, it is shorter on the last page (its length is the smaller
  of 5 and the number of documents from the offset on), and it is empty exactly when
  the offset is at or beyond the number of documents. The sorted projection itself is
  in title order and holds the projection of every document, as often as it is stored.
\<close>

theorem showPage_page:
  assumes "1 \<le> page"
  shows "\<exists>rows. showPage books page = Inr rows
     \<and> rows = take 5 (drop (nat ((page - 1) * 5)) (sorted_projection books))
     \<and> length rows = min 5 (length books - nat ((page - 1) * 5))
     \<and> (\<forall>i < length rows. rows ! i = sorted_projection books ! (nat ((page - 1) * 5) + i))
     \<and> length rows \<le> 5
     \<and> (rows = [] \<longleftrightarrow> length books \<le> nat ((page - 1) * 5))
     \<and> sorted (map tap_title (sorted_projection books))
     \<and> mset (sorted_projection books) = image_mset project_title_author_price (mset books)"
proof -
  let ?off = "nat ((page - 1) * 5)"
  let ?full = "sorted_projection books"
  let ?rows = "take 5 (drop ?off ?full)"
  have ret: "showPage books page = Inr ?rows"
    using assms by (rule showPage_window)
  have len: "length ?rows = min 5 (length books - ?off)"
    by (simp add: length_sorted_projection)
  have nth: "\<forall>i < length ?rows. ?rows ! i = ?full ! (?off + i)"
    by (auto simp add: length_sorted_projection)
  have empty: "?rows = [] \<longleftrightarrow> length books \<le> ?off"
    by (simp add: length_sorted_projection)
  from ret len nth empty sorted_projection_titles mset_sorted_projection
  show ?thesis by simp
qed

text \<open>
  Page 2 of the seven books holds the last two rows in title order, page 3 is empty.
\<close>

theorem showPage_page_witness:
  "(1::int) \<le> 2
   \<and> showPage seven_books 2 =
       Inr [\<lparr>tap_title = ''F'', tap_author = ''Ann'', tap_price = 20\<rparr>,
            \<lparr>tap_title = ''G'', tap_author = ''Ann'', tap_price = 7\<rparr>]
   \<and> showPage seven_books 3 = Inr []"
proof -
  have two: "(1::int) \<le> 2" and three: "(1::int) \<le> 3" by simp_all
  from showPage_page [OF two, of seven_books] showPage_page [OF three, of seven_books]
  show ?thesis
    by (simp add: sorted_projection_seven seven_rows_def)
qed

text \<open>
  The claim as written lets the caller choose the page size. At page 1 and page size
  2 it promises the window \<open>[0, 2)\<close> of the three books, two rows; the helper has
  no such argument and returns all three.
\<close>

theorem showPage_page_size_counterexample:
  "showPage three_books 1 = Inr three_rows
   \<and> length three_rows = 3
   \<and> showPage three_books 1
       \<noteq> Inr (take 2 (drop (nat ((1 - 1) * 2)) (sorted_projection three_books)))"
  by (simp add: showPage_window sorted_projection_three three_rows_def)

text \<open>
  C2, as amended. For every page number \<open>k\<close> of at least 1, and a collection in
  which no two documents have the same title, the pages \<open>k\<close> and \<open>k + 1\<close> are
  the windows \<open>[offset, offset + 5)\<close> and \<open>[offset + 5, offset + 10)\<close> of one and
  the same title-sorted projected collection, in whatever order the store reads the
  documents in either call: the two pages have no row in common, and one after the
  other they are the segment of ten positions from the offset on, so no row is
  skipped and none comes twice. The page size is the constant 5.
\<close>

theorem showPage_consecutive:
  assumes "1 \<le> k" and "same_documents run1 run2" and "distinct (map title run1)"
  shows "\<exists>rows1 rows2. showPage run1 k = Inr rows1 \<and> showPage run2 (k + 1) = Inr rows2
     \<and> sorted_projection run2 = sorted_projection run1
     \<and> rows1 = take 5 (drop (nat ((k - 1) * 5)) (sorted_projection run1))
     \<and> rows2 = take 5 (drop (nat ((k - 1) * 5) + 5) (sorted_projection run1))
     \<and> rows1 @ rows2 = take 10 (drop (nat ((k - 1) * 5)) (sorted_projection run1))
     \<and> set rows1 \<inter> set rows2 = {}"
proof -
  let ?off = "nat ((k - 1) * 5)"
  let ?full = "sorted_projection run1"
  let ?r1 = "take 5 (drop ?off ?full)"
  let ?r2 = "take 5 (drop (?off + 5) ?full)"
  from assms(2) have "mset run2 = mset run1"
    by (simp add: same_documents_def)
  then have "sort_key title run2 = sort_key title run1"
    using assms(3) by (rule sort_key_unique)
  then have same: "sorted_projection run2 = ?full"
    by (simp add: sorted_projection_def)
  have p1: "showPage run1 k = Inr ?r1"
    using assms(1) by (rule showPage_window)
  have off': "nat ((k + 1 - 1) * 5) = ?off + 5"
    using assms(1) by (simp add: nat_add_distrib)
  have "showPage run2 (k + 1) = Inr (take 5 (drop (nat ((k + 1 - 1) * 5)) (sorted_projection run2)))"
    using assms(1) by (intro showPage_window) simp
  then have p2: "showPage run2 (k + 1) = Inr ?r2"
    by (simp only: off' same)
  have r2: "?r2 = take 5 (drop 5 (drop ?off ?full))"
    by (simp add: add.commute)
  have cat: "?r1 @ ?r2 = take 10 (drop ?off ?full)"
    unfolding r2 using take_add [of 5 5 "drop ?off ?full"] by simp
  have "map tap_title ?full = map title (sort_key title run1)"
    by (simp add: sorted_projection_def project_title_author_price_def comp_def)
  then have "distinct (map tap_title ?full)"
    using assms(3) by (simp only: distinct_map_sort_key)
  then have "distinct ?full"
    by (simp only: distinct_map)
  then have "distinct (take 10 (drop ?off ?full))"
    by simp
  then have "distinct (?r1 @ ?r2)"
    by (simp only: cat)
  then have disj: "set ?r1 \<inter> set ?r2 = {}"
    by simp
  from p1 p2 same cat disj show ?thesis
    by blast
qed

text \<open>
  Pages 1 and 2 of the seven books, the second call reading them in the reverse
  order: five rows, then the other two.
\<close>

theorem showPage_consecutive_witness:
  "(1::int) \<le> 1
   \<and> same_documents seven_books (rev seven_books)
   \<and> distinct (map title seven_books)
   \<and> showPage seven_books 1 = Inr (take 5 seven_rows)
   \<and> showPage (rev seven_books) 2 = Inr (drop 5 seven_rows)
   \<and> take 5 seven_rows @ drop 5 seven_rows = sorted_projection seven_books
   \<and> set (take 5 seven_rows) \<inter> set (drop 5 seven_rows) = {}"
proof -
  have one: "(1::int) \<le> 1" by simp
  have same: "same_documents seven_books (rev seven_books)"
    by (simp add: same_documents_def)
  have d: "distinct (map title seven_books)"
    by (simp add: seven_books_def)
  have l: "length seven_rows = 7"
    by (simp add: seven_rows_def)
  from showPage_consecutive [OF one same d] l
  show ?thesis
    using same d by (auto simp add: sorted_projection_seven)
qed

text \<open>
  The claim as written holds for every collection. With six documents of one title,
  read in one order by the first call and in the reverse order by the second, both
  results are in title order; page 1 has the editions 1 to 5 and page 2 has edition
  1 again, while edition 6 is on neither.
\<close>

theorem showPage_tie_order_counterexample:
  "same_documents six_editions (rev six_editions)
   \<and> showPage six_editions 1 =
       Inr [edition_row 1, edition_row 2, edition_row 3, edition_row 4, edition_row 5]
   \<and> showPage (rev six_editions) 2 = Inr [edition_row 1]"
proof -
  have "same_documents six_editions (rev six_editions)"
    by (simp add: same_documents_def)
  moreover have "sorted_projection six_editions =
      [edition_row 1, edition_row 2, edition_row 3, edition_row 4, edition_row 5, edition_row 6]"
    by code_simp
  moreover have "sorted_projection (rev six_editions) =
      [edition_row 6, edition_row 5, edition_row 4, edition_row 3, edition_row 2, edition_row 1]"
    by code_simp
  ultimately show ?thesis
    by (simp add: showPage_window)
qed

text \<open>
  C3, as amended. The page size is the constant 5. For a collection of \<open>n\<close>
  documents, the pages that are not empty are exactly the pages 1 to \<open>ceil(n / 5)\<close>;
  the pages of 5 rows are the pages 1 to \<open>n div 5\<close>; no page has more than 5 rows;
  and the lengths of the pages 1 to \<open>m\<close> add up to \<open>n\<close> for every \<open>m\<close> of at
  least \<open>ceil(n / 5)\<close>.
\<close>

theorem page_count:
  "{k. 1 \<le> k \<and> page_length books k \<noteq> 0} = {1 .. \<lceil>real (length books) / 5\<rceil>}
   \<and> {k. 1 \<le> k \<and> page_length books k = 5} = {1 .. int (length books) div 5}
   \<and> (\<forall>k \<ge> 1. page_length books k \<le> 5)
   \<and> (\<forall>m. \<lceil>real (length books) / 5\<rceil> \<le> int m \<longrightarrow>
         (\<Sum>k = 1..m. page_length books (int k)) = length books)"
proof -
  have a: "{k. 1 \<le> k \<and> page_length books k \<noteq> 0} = {1 .. \<lceil>real (length books) / 5\<rceil>}"
    using page_nonempty_iff [of _ books] by auto
  have b: "{k. 1 \<le> k \<and> page_length books k = 5} = {1 .. int (length books) div 5}"
    using page_full_iff [of _ books] by auto
  have c: "\<forall>k \<ge> 1. page_length books k \<le> 5"
    by (simp add: page_length_eq)
  have d: "(\<Sum>k = 1..m. page_length books (int k)) = length books"
    if "\<lceil>real (length books) / 5\<rceil> \<le> int m" for m
  proof -
    from that have "(int (length books) + 4) div 5 \<le> int m"
      by (simp only: ceiling_fifth)
    then have "length books \<le> 5 * m" by linarith
    moreover have "(\<Sum>k = 1..m. page_length books (int k)) = min (length books) (5 * m)"
      by (rule sum_page_lengths)
    ultimately show ?thesis by simp
  qed
  from a b c d show ?thesis by blast
qed

text \<open>Seven books make two pages, of five and of two rows.\<close>

theorem page_count_witness:
  "{k. 1 \<le> k \<and> page_length seven_books k \<noteq> 0} = {1 .. 2}
   \<and> {k. 1 \<le> k \<and> page_length seven_books k = 5} = {1 .. 1}
   \<and> page_length seven_books 2 \<le> 5
   \<and> (\<Sum>k = 1..2. page_length seven_books (int k)) = 7"
proof -
  have l: "length seven_books = 7"
    by (simp add: seven_books_def)
  have c: "\<lceil>real (length seven_books) / 5\<rceil> = 2"
    by (simp add: l)
  have f: "int (length seven_books) div 5 = 1"
    by (simp add: l)
  have m: "\<lceil>real (length seven_books) / 5\<rceil> \<le> int 2"
    by (simp add: l)
  from page_count [of seven_books]
  have a: "{k. 1 \<le> k \<and> page_length seven_books k \<noteq> 0} = {1 .. \<lceil>real (length seven_books) / 5\<rceil>}"
    and b: "{k. 1 \<le> k \<and> page_length seven_books k = 5} = {1 .. int (length seven_books) div 5}"
    and le: "\<forall>k \<ge> 1. page_length seven_books k \<le> 5"
    and s: "\<forall>m. \<lceil>real (length seven_books) / 5\<rceil> \<le> int m \<longrightarrow>
         (\<Sum>k = 1..m. page_length seven_books (int k)) = length seven_books"
    by blast+
  from s m have "(\<Sum>k = 1..2. page_length seven_books (int k)) = length seven_books"
    by blast
  moreover from le have "page_length seven_books 2 \<le> 5"
    by simp
  ultimately show ?thesis
    using a b by (simp only: c f l) simp
qed

text \<open>
  The claim as written counts the pages for a page size \<open>p\<close> the caller chooses,
  and counts full pages. With three books and \<open>p = 2\<close> it promises
  \<open>ceil(3 / 2) = 2\<close> pages; the helper puts the three rows on page 1 and
  page 2 is empty. With seven books, and the page size 5 of the helper, one page
  has 5 rows and the second has 2, while \<open>ceil(7 / 5) = 2\<close>.
\<close>

theorem page_count_counterexample:
  "page_length three_books 1 = 3
   \<and> page_length three_books 2 = 0
   \<and> \<lceil>real (length three_books) / 2\<rceil> = 2
   \<and> page_length seven_books 1 = 5
   \<and> page_length seven_books 2 = 2
   \<and> page_length seven_books 3 = 0
   \<and> \<lceil>real (length seven_books) / 5\<rceil> = 2"
  by (simp add: page_length_eq three_books_def seven_books_def)

text \<open>
  C9. The page size is the constant 5 and no argument of \<open>showPage\<close>, which takes
  the page number only (and, in this model, the collection it reads): the limit it
  gives the store is 5 whatever the page, every sequence it returns has at most 5
  rows, and it does return one for every page number of at least 1.
\<close>

theorem showPage_fixed_size:
  "pageSize = 5
   \<and> c_limit (showPage_cursor books page) = 5
   \<and> (\<forall>rows. showPage books page = Inr rows \<longrightarrow> length rows \<le> 5)
   \<and> (1 \<le> page \<longrightarrow> (\<exists>rows. showPage books page = Inr rows))"
proof -
  have "length rows \<le> 5" if "showPage books page = Inr rows" for rows
  proof (cases "1 \<le> page")
    case True
    with that show ?thesis by (auto simp add: showPage_window)
  next
    case False
    with that show ?thesis by (simp add: showPage_rejected)
  qed
  then show ?thesis
    by (simp add: pageSize_def showPage_cursor_fields showPage_window)
qed

text \<open>Page 2 of the seven books has two rows.\<close>

theorem showPage_fixed_size_witness:
  "(1::int) \<le> 2
   \<and> (\<exists>rows. showPage seven_books 2 = Inr rows \<and> length rows = 2 \<and> length rows \<le> 5)"
proof -
  from showPage_fixed_size [of seven_books 2]
  have "\<forall>rows. showPage seven_books 2 = Inr rows \<longrightarrow> length rows \<le> 5"
    by blast
  moreover have "showPage seven_books 2 = Inr (drop 5 seven_rows)"
    by (simp add: showPage_window sorted_projection_seven seven_rows_def)
  moreover have "length (drop 5 seven_rows) = 2"
    by (simp add: seven_rows_def)
  ultimately show ?thesis by auto
qed

text \<open>
  C10, as amended. \<open>showPage\<close> checks nothing: the cursor goes to the store as
  it is built, for every page. For every integer page, also below 1, whose skip
  \<open>(page - 1) * 5\<close> is below \<open>2 ^ 53\<close> in magnitude, line 64 computes exactly this
  skip, and it is the skip of the cursor. For page 0 the skip is \<open>-5\<close>, for page
  \<open>-1\<close> it is \<open>-10\<close>.
\<close>

theorem showPage_no_validation:
  "(\<bar>(page - 1) * 5\<bar> < 2 ^ 53 \<longrightarrow>
      showPage_skip (of_int page) = of_int ((page - 1) * 5)
      \<and> of_int (c_skip (showPage_cursor books page)) = showPage_skip (of_int page))
   \<and> showPage books page = toArray (showPage_cursor books page)
   \<and> showPage_skip 0 = - 5
   \<and> showPage_skip (- 1) = - 10
   \<and> c_skip (showPage_cursor books 0) = - 5
   \<and> c_skip (showPage_cursor books (- 1)) = - 10"
proof -
  have exact: "showPage_skip (of_int page) = of_int ((page - 1) * 5)
      \<and> of_int (c_skip (showPage_cursor books page)) = showPage_skip (of_int page)"
    if "\<bar>(page - 1) * 5\<bar> < 2 ^ 53"
    using that by (simp add: showPage_skip_exact showPage_cursor_fields)
  have zero: "showPage_skip 0 = - 5"
    using showPage_skip_exact [of 0] by simp
  have minus: "showPage_skip (- 1) = - 10"
    using showPage_skip_exact [of "- 1"] by simp
  have bound: "\<bar>(page - 1) * 5\<bar> < 2 ^ 53 \<longrightarrow>
      showPage_skip (of_int page) = of_int ((page - 1) * 5)
      \<and> of_int (c_skip (showPage_cursor books page)) = showPage_skip (of_int page)"
    using exact by blast
  have run: "showPage books page = toArray (showPage_cursor books page)"
    by (rule showPage_def)
  have c0: "c_skip (showPage_cursor books 0) = - 5"
    and c1: "c_skip (showPage_cursor books (- 1)) = - 10"
    by (simp_all add: showPage_cursor_fields)
  show ?thesis
    by (intro conjI) (rule bound run zero minus c0 c1)+
qed

text \<open>Page 0: the skip \<open>-5\<close> is computed exactly and is the skip of the cursor.\<close>

theorem showPage_no_validation_witness:
  "\<bar>(0 - 1) * 5\<bar> < (2::int) ^ 53
   \<and> showPage_skip (of_int 0) = of_int ((0 - 1) * 5)
   \<and> of_int (c_skip (showPage_cursor seven_books 0)) = showPage_skip (of_int 0)
   \<and> showPage seven_books 0 = toArray (showPage_cursor seven_books 0)"
proof -
  have small: "\<bar>(0 - 1) * 5\<bar> < (2::int) ^ 53" by simp
  from showPage_no_validation [of 0 seven_books] small
  show ?thesis by blast
qed

text \<open>
  The claim as written has the skip exact for every integer page. The page
  1801439850948200 is a binary64 number, and so is the page less 1, but five times
  that, 9007199254740995, lies between two binary64 numbers and is rounded to the one
  with the even significand.
\<close>

theorem showPage_skip_rounding_counterexample:
  "is_binary64 1801439850948200
   \<and> showPage_skip 1801439850948200 = 9007199254740996
   \<and> (1801439850948200 - 1) * 5 = (9007199254740995 :: int)"
proof -
  have "is_binary64 1801439850948200"
    by (simp add: is_binary64_numeral)
  moreover have "showPage_skip 1801439850948200 = 9007199254740996"
    by code_simp
  ultimately show ?thesis by simp
qed

section \<open>Aggregation claims\<close>

text \<open>
  C4. \<open>countByDecade\<close> returns one row for each distinct decade among the
  documents, in ascending order of the decade and with no decade twice, where the
  decade of a year is the year minus its remainder by 10 (the store's \<open>$mod\<close>; for a
  year that is not negative this is the usual \<open>mod\<close>, so 2015 falls in 2010). The
  count of a row is the number of documents of its decade, so the counts add up to
  the number of documents, and the decade of every document is the key of a row.
\<close>

theorem countByDecade_partition:
  "sorted (map dr_decade (countByDecade books))
   \<and> distinct (map dr_decade (countByDecade books))
   \<and> set (map dr_decade (countByDecade books)) = (\<lambda>b. decade_of (published_year b)) ` set books
   \<and> (\<forall>r \<in> set (countByDecade books).
         dr_count r = length (filter (\<lambda>b. decade_of (published_year b) = dr_decade r) books))
   \<and> sum_list (map dr_count (countByDecade books)) = length books
   \<and> (\<forall>y. decade_of y = y - mongo_mod y 10)
   \<and> (\<forall>y \<ge> 0. decade_of y = y - y mod 10)
   \<and> decade_of 2015 = 2010"
proof -
  let ?dec = "\<lambda>b. decade_of (published_year b)"
  let ?row = "\<lambda>d. \<lparr>dr_decade = d, dr_count = length (filter (\<lambda>b. ?dec b = d) books)\<rparr>"
  let ?groups = "map ?row (distinct_keys (map ?dec books))"
  have eq: "countByDecade books = sort_key dr_decade ?groups"
    by (rule countByDecade_eq)
  have keys: "map dr_decade ?groups = distinct_keys (map ?dec books)"
    by (simp add: comp_def)
  have srt: "sorted (map dr_decade (countByDecade books))"
    by (simp only: eq sorted_sort_key)
  have dst: "distinct (map dr_decade (countByDecade books))"
    by (simp only: eq distinct_map_sort_key keys distinct_distinct_keys)
  have "set (map dr_decade (countByDecade books)) = set (map dr_decade ?groups)"
    by (simp only: eq set_map set_sort)
  then have st: "set (map dr_decade (countByDecade books)) = ?dec ` set books"
    by (simp only: keys set_distinct_keys set_map)
  have "set (countByDecade books) = set ?groups"
    by (simp only: eq set_sort)
  then have cnt: "\<forall>r \<in> set (countByDecade books).
      dr_count r = length (filter (\<lambda>b. ?dec b = dr_decade r) books)"
    by auto
  have "sum_list (map dr_count (countByDecade books)) = sum_list (map dr_count ?groups)"
    by (simp only: eq sum_list_map_sort_key)
  also have "\<dots> = (\<Sum>k\<leftarrow>distinct_keys (map ?dec books). length (filter (\<lambda>b. ?dec b = k) books))"
    by (simp add: comp_def)
  also have "\<dots> = length books"
    by (rule group_sizes_total)
  finally have tot: "sum_list (map dr_count (countByDecade books)) = length books" .
  have df: "\<forall>y. decade_of y = y - mongo_mod y 10"
    by (simp add: decade_of_def)
  have nn: "\<forall>y \<ge> 0. decade_of y = y - y mod 10"
    by (simp add: decade_of_nonneg)
  have ex: "decade_of 2015 = 2010"
    by (simp add: decade_of_nonneg)
  show ?thesis
    by (intro conjI) (rule srt dst st cnt tot df nn ex)+
qed

text \<open>The seven books fall in three decades.\<close>

theorem countByDecade_partition_witness:
  "countByDecade seven_books =
     [\<lparr>dr_decade = 1990, dr_count = 2\<rparr>, \<lparr>dr_decade = 2010, dr_count = 4\<rparr>,
      \<lparr>dr_decade = 2020, dr_count = 1\<rparr>]
   \<and> length (filter (\<lambda>b. decade_of (published_year b) = 2010) seven_books) = 4
   \<and> sum_list (map dr_count (countByDecade seven_books)) = length seven_books
   \<and> (0::int) \<le> 2019 \<and> decade_of 2019 = 2019 - 2019 mod 10"
proof -
  have e: "countByDecade seven_books =
     [\<lparr>dr_decade = 1990, dr_count = 2\<rparr>, \<lparr>dr_decade = 2010, dr_count = 4\<rparr>,
      \<lparr>dr_decade = 2020, dr_count = 1\<rparr>]"
    by code_simp
  from countByDecade_partition [of seven_books]
  have cnt: "\<forall>r \<in> set (countByDecade seven_books).
         dr_count r = length (filter (\<lambda>b. decade_of (published_year b) = dr_decade r) seven_books)"
    and tot: "sum_list (map dr_count (countByDecade seven_books)) = length seven_books"
    and nn: "\<forall>y \<ge> 0. decade_of y = y - y mod 10"
    by blast+
  from cnt have "length (filter (\<lambda>b. decade_of (published_year b) = 2010) seven_books) = 4"
    by (simp add: e)
  moreover from nn have "decade_of 2019 = 2019 - 2019 mod 10"
    by (rule allE [where x = 2019]) simp
  ultimately show ?thesis
    using e tot by simp
qed




text \<open>
  C6. \<open>topAuthorByBookCount\<close> returns nothing for the empty collection and never
  more than one row. For a collection that is not empty it returns exactly one row:
  an author of the collection with the number of that author's documents, and no
  author has more. Which of several authors with the most documents it is, the claim
  leaves open.
\<close>

theorem topAuthorByBookCount_max:
  "topAuthorByBookCount [] = []
   \<and> length (topAuthorByBookCount books) \<le> 1
   \<and> (books \<noteq> [] \<longrightarrow>
        (\<exists>r. topAuthorByBookCount books = [r]
           \<and> ar_author r \<in> author ` set books
           \<and> ar_count r = length (filter (\<lambda>b. author b = ar_author r) books)
           \<and> (\<forall>a. length (filter (\<lambda>b. author b = a) books) \<le> ar_count r)))"
proof -
  let ?n = "\<lambda>a. length (filter (\<lambda>b. author b = a) books)"
  let ?row = "\<lambda>a. \<lparr>ar_author = a, ar_count = ?n a\<rparr>"
  let ?groups = "map ?row (distinct_keys (map author books))"
  let ?sorted = "sort_stage_desc ar_count ?groups"
  have eq: "topAuthorByBookCount books = take 1 ?sorted"
    by (rule topAuthor_groups)
  have e: "topAuthorByBookCount [] = []"
    by (simp add: topAuthorByBookCount_def limit_stage_def group_stage_def sort_stage_desc_def)
  have l: "length (topAuthorByBookCount books) \<le> 1"
    by (simp add: eq)
  have mem: "set ?sorted = ?row ` author ` set books"
    by (simp add: set_sort_stage_desc set_distinct_keys image_image)
  have top: "\<exists>r. topAuthorByBookCount books = [r]
           \<and> ar_author r \<in> author ` set books
           \<and> ar_count r = ?n (ar_author r)
           \<and> (\<forall>a. ?n a \<le> ar_count r)" if ne: "books \<noteq> []"
  proof -
    from ne have "set ?sorted \<noteq> {}"
      unfolding mem by simp
    then have nonempty: "?sorted \<noteq> []" by auto
    then have hd_in: "hd ?sorted \<in> set ?sorted" by (rule hd_in_set)
    then obtain a where a: "a \<in> author ` set books" and h: "hd ?sorted = ?row a"
      unfolding mem by blast
    have one: "topAuthorByBookCount books = [hd ?sorted]"
      using nonempty unfolding eq by (cases ?sorted) simp_all
    have maxi: "?n a' \<le> ar_count (hd ?sorted)" for a'
    proof (cases "a' \<in> author ` set books")
      case True
      then have "?row a' \<in> set ?sorted" unfolding mem by blast
      with sorted_sort_stage_desc [of ar_count ?groups]
      have "ar_count (?row a') \<le> ar_count (hd ?sorted)"
        by (rule descending_head)
      then show ?thesis by simp
    next
      case False
      then have "filter (\<lambda>b. author b = a') books = []"
        by (auto simp add: filter_empty_conv)
      then show ?thesis by simp
    qed
    from one a h maxi show ?thesis by auto
  qed
  show ?thesis
    using e l top by blast
qed

text \<open>Among the seven books Ann has three, the others two each.\<close>

theorem topAuthorByBookCount_max_witness:
  "seven_books \<noteq> []
   \<and> topAuthorByBookCount seven_books = [\<lparr>ar_author = ''Ann'', ar_count = 3\<rparr>]
   \<and> (\<forall>a. length (filter (\<lambda>b. author b = a) seven_books) \<le> 3)"
proof -
  have ne: "seven_books \<noteq> []"
    by (simp add: seven_books_def)
  have e: "topAuthorByBookCount seven_books = [\<lparr>ar_author = ''Ann'', ar_count = 3\<rparr>]"
    by code_simp
  from topAuthorByBookCount_max [of seven_books] ne
  obtain r where "topAuthorByBookCount seven_books = [r]"
    and "\<forall>a. length (filter (\<lambda>b. author b = a) seven_books) \<le> ar_count r"
    by blast
  with e ne show ?thesis by simp
qed

section \<open>Update and delete claims\<close>

text \<open>
  C7. For every title and every new price, \<open>updatePrice\<close> changes at most one
  document, the first with this title, and of it the price only: the collection keeps
  its length, the documents before the first match and after it stay as they are,
  the titles, authors, genres, years and stock flags of all documents stay as they
  are, and with no match the collection is unchanged, nothing being inserted. The
  modified count is 0 or 1 and not more than the matched count. When a document has
  the title, the lookup that follows shows the title with the new price in its first
  row, and as many further rows as there are other documents of this title.
\<close>

theorem updatePrice_effect:
  "length (snd (updatePrice t p books)) = length books
   \<and> snd (updatePrice t p books) =
       takeWhile (\<lambda>b. title b \<noteq> t) books @
       (case dropWhile (\<lambda>b. title b \<noteq> t) books of [] \<Rightarrow> [] | b # rest \<Rightarrow> b\<lparr>price := p\<rparr> # rest)
   \<and> matchedCount (fst (updatePrice t p books)) = (if t \<in> title ` set books then 1 else 0)
   \<and> modifiedCount (fst (updatePrice t p books)) \<le> matchedCount (fst (updatePrice t p books))
   \<and> modifiedCount (fst (updatePrice t p books)) \<le> 1
   \<and> (t \<notin> title ` set books \<longrightarrow> snd (updatePrice t p books) = books)
   \<and> (\<forall>i < length books. snd (updatePrice t p books) ! i \<noteq> books ! i \<longrightarrow>
         title (books ! i) = t \<and> (\<forall>j < i. title (books ! j) \<noteq> t)
         \<and> snd (updatePrice t p books) ! i = (books ! i)\<lparr>price := p\<rparr>)
   \<and> map title (snd (updatePrice t p books)) = map title books
   \<and> map author (snd (updatePrice t p books)) = map author books
   \<and> map genre (snd (updatePrice t p books)) = map genre books
   \<and> map published_year (snd (updatePrice t p books)) = map published_year books
   \<and> map in_stock (snd (updatePrice t p books)) = map in_stock books
   \<and> (t \<in> title ` set books \<longrightarrow>
        (\<exists>rest. verifyUpdate t (snd (updatePrice t p books))
           = Inr (\<lparr>tp_title = t, tp_price = p\<rparr> # rest)
         \<and> length rest = length (filter (\<lambda>b. title b = t) books) - 1))"
proof -
  let ?flt = "\<lambda>b. title b = t"
  let ?upd = "\<lambda>b. b\<lparr>price := p\<rparr>"
  let ?res = "updateOne ?flt ?upd books"
  have def: "updatePrice t p books = ?res"
    by (simp add: updatePrice_def)
  have len: "length (snd (updatePrice t p books)) = length books"
    by (simp only: def updateOne_length)
  have docs: "snd (updatePrice t p books) =
       takeWhile (\<lambda>b. title b \<noteq> t) books @
       (case dropWhile (\<lambda>b. title b \<noteq> t) books of [] \<Rightarrow> [] | b # rest \<Rightarrow> b\<lparr>price := p\<rparr> # rest)"
    by (simp only: def updateOne_docs)
  have mat: "matchedCount (fst (updatePrice t p books)) = (if t \<in> title ` set books then 1 else 0)"
    by (auto simp add: def updateOne_matched)
  have mm: "modifiedCount (fst (updatePrice t p books)) \<le> matchedCount (fst (updatePrice t p books))"
    by (simp only: def updateOne_modified_le)
  have m1: "modifiedCount (fst (updatePrice t p books)) \<le> 1"
    using mm mat by (simp split: if_splits)
  have nomatch: "t \<notin> title ` set books \<longrightarrow> snd (updatePrice t p books) = books"
    by (auto simp add: def intro: updateOne_no_match)
  have nth: "\<forall>i < length books. snd (updatePrice t p books) ! i \<noteq> books ! i \<longrightarrow>
         title (books ! i) = t \<and> (\<forall>j < i. title (books ! j) \<noteq> t)
         \<and> snd (updatePrice t p books) ! i = (books ! i)\<lparr>price := p\<rparr>"
    using updateOne_nth [of _ books ?flt ?upd] by (simp only: def) blast
  have f1: "map title (snd (updatePrice t p books)) = map title books"
    by (simp only: def) (rule updateOne_map_frame, simp)
  have f2: "map author (snd (updatePrice t p books)) = map author books"
    by (simp only: def) (rule updateOne_map_frame, simp)
  have f3: "map genre (snd (updatePrice t p books)) = map genre books"
    by (simp only: def) (rule updateOne_map_frame, simp)
  have f4: "map published_year (snd (updatePrice t p books)) = map published_year books"
    by (simp only: def) (rule updateOne_map_frame, simp)
  have f5: "map in_stock (snd (updatePrice t p books)) = map in_stock books"
    by (simp only: def) (rule updateOne_map_frame, simp)
  have look: "t \<in> title ` set books \<longrightarrow>
        (\<exists>rest. verifyUpdate t (snd (updatePrice t p books))
           = Inr (\<lparr>tp_title = t, tp_price = p\<rparr> # rest)
         \<and> length rest = length (filter (\<lambda>b. title b = t) books) - 1)"
  proof
    assume "t \<in> title ` set books"
    then have "\<exists>b \<in> set books. ?flt b" by auto
    then obtain b rest where hit: "filter ?flt (snd ?res) = ?upd b # rest"
        and b: "title b = t" and old: "filter ?flt books = b # rest"
      using updateOne_filter_hit [of books ?flt ?upd] by auto
    have "verifyUpdate t (snd (updatePrice t p books))
        = Inr (map project_title_price (filter ?flt (snd ?res)))"
      by (simp add: verifyUpdate_def toArray_def coll_find_def apply_limit_def def)
    also have "\<dots> = Inr (\<lparr>tp_title = t, tp_price = p\<rparr> # map project_title_price rest)"
      using b by (simp add: hit project_title_price_def)
    finally show "\<exists>rest. verifyUpdate t (snd (updatePrice t p books))
           = Inr (\<lparr>tp_title = t, tp_price = p\<rparr> # rest)
         \<and> length rest = length (filter (\<lambda>b. title b = t) books) - 1"
      using old by simp
  qed
  show ?thesis
    by (intro conjI) (rule len docs mat mm m1 nomatch nth f1 f2 f3 f4 f5 look)+
qed

text \<open>
  The book B of the seven, the fourth document, gets the price 14.99. The statement
  of the script changes nothing in the seven books: none is The Silent River.
\<close>

theorem updatePrice_effect_witness:
  "''B'' \<in> title ` set seven_books
   \<and> (3::nat) < length seven_books
   \<and> snd (updatePrice ''B'' (1499 / 100) seven_books) ! 3 \<noteq> seven_books ! 3
   \<and> snd (updatePrice ''B'' (1499 / 100) seven_books) ! 3
       = (seven_books ! 3)\<lparr>price := 1499 / 100\<rparr>
   \<and> modifiedCount (fst (updatePrice ''B'' (1499 / 100) seven_books)) = 1
   \<and> verifyUpdate ''B'' (snd (updatePrice ''B'' (1499 / 100) seven_books))
       = Inr [\<lparr>tp_title = ''B'', tp_price = 1499 / 100\<rparr>]
   \<and> ''The Silent River'' \<notin> title ` set seven_books
   \<and> snd (script_update seven_books) = seven_books
   \<and> modifiedCount (fst (script_update seven_books)) = 0"
proof -
  let ?p = "1499 / 100 :: rat"
  have inB: "''B'' \<in> title ` set seven_books"
    and outR: "''The Silent River'' \<notin> title ` set seven_books"
    and len: "(3::nat) < length seven_books"
    and one: "length (filter (\<lambda>b. title b = ''B'') seven_books) = 1"
    by (simp_all add: seven_books_def)
  have changed: "snd (updatePrice ''B'' ?p seven_books) ! 3 \<noteq> seven_books ! 3"
    by (simp add: updatePrice_def seven_books_def)
  have modified: "modifiedCount (fst (updatePrice ''B'' ?p seven_books)) = 1"
    by (simp add: updatePrice_def seven_books_def)
  from updatePrice_effect [of "''B''" ?p seven_books] inB
  obtain rest where look: "verifyUpdate ''B'' (snd (updatePrice ''B'' ?p seven_books))
        = Inr (\<lparr>tp_title = ''B'', tp_price = ?p\<rparr> # rest)"
    and "length rest = length (filter (\<lambda>b. title b = ''B'') seven_books) - 1"
    by blast
  with one have rest: "rest = []" by simp
  from updatePrice_effect [of "''B''" ?p seven_books] len changed
  have nth: "snd (updatePrice ''B'' ?p seven_books) ! 3 = (seven_books ! 3)\<lparr>price := ?p\<rparr>"
    by blast
  let ?s = "binary64_round (1499 / 100)"
  from updatePrice_effect [of "''The Silent River''" ?s seven_books]
  have "''The Silent River'' \<notin> title ` set seven_books \<longrightarrow>
      snd (updatePrice ''The Silent River'' ?s seven_books) = seven_books"
    and "matchedCount (fst (updatePrice ''The Silent River'' ?s seven_books))
      = (if ''The Silent River'' \<in> title ` set seven_books then 1 else 0)"
    and "modifiedCount (fst (updatePrice ''The Silent River'' ?s seven_books))
      \<le> matchedCount (fst (updatePrice ''The Silent River'' ?s seven_books))"
    by blast+
  with outR have same: "snd (updatePrice ''The Silent River'' ?s seven_books) = seven_books"
    and none: "modifiedCount (fst (updatePrice ''The Silent River'' ?s seven_books)) = 0"
    by simp_all
  from inB len changed nth modified look rest outR same none show ?thesis
    by (simp add: script_update_def)
qed

text \<open>
  C8, as amended. For every title, \<open>deleteByTitle\<close> removes the first document
  with this title and no other: the removed count is 1 when a document has the title
  and 0 otherwise, the collection gets shorter by exactly this count, and the
  documents of other titles all stay. The lookup
  that follows returns the documents of this title other than the removed one; it is
  empty when at most one document had the title.
\<close>

theorem deleteByTitle_effect:
  "fst (deleteByTitle t books) = (if t \<in> title ` set books then 1 else 0)
   \<and> length (snd (deleteByTitle t books)) + fst (deleteByTitle t books) = length books
   \<and> snd (deleteByTitle t books) =
       takeWhile (\<lambda>b. title b \<noteq> t) books @ drop 1 (dropWhile (\<lambda>b. title b \<noteq> t) books)
   \<and> filter (\<lambda>b. title b \<noteq> t) (snd (deleteByTitle t books))
       = filter (\<lambda>b. title b \<noteq> t) books
   \<and> verifyDeletion t (snd (deleteByTitle t books)) = Inr (drop 1 (filter (\<lambda>b. title b = t) books))
   \<and> (length (filter (\<lambda>b. title b = t) books) \<le> 1 \<longrightarrow>
        verifyDeletion t (snd (deleteByTitle t books)) = Inr [])"
proof -
  let ?flt = "\<lambda>b. title b = t"
  have def: "deleteByTitle t books = deleteOne ?flt books"
    by (simp add: deleteByTitle_def)
  have cnt: "fst (deleteByTitle t books) = (if t \<in> title ` set books then 1 else 0)"
    by (auto simp add: def deleteOne_count)
  have len: "length (snd (deleteByTitle t books)) + fst (deleteByTitle t books) = length books"
    using deleteOne_length [of ?flt books] by (simp add: def)
  have docs: "snd (deleteByTitle t books) =
       takeWhile (\<lambda>b. title b \<noteq> t) books @ drop 1 (dropWhile (\<lambda>b. title b \<noteq> t) books)"
    by (simp only: def deleteOne_docs)
  have others: "filter (\<lambda>b. title b \<noteq> t) (snd (deleteByTitle t books))
       = filter (\<lambda>b. title b \<noteq> t) books"
    by (simp only: def deleteOne_others)
  have look: "verifyDeletion t (snd (deleteByTitle t books))
      = Inr (drop 1 (filter (\<lambda>b. title b = t) books))"
    by (simp add: verifyDeletion_def toArray_def coll_find_def apply_limit_def def
        deleteOne_filter)
  have uniq: "length (filter (\<lambda>b. title b = t) books) \<le> 1 \<longrightarrow>
        verifyDeletion t (snd (deleteByTitle t books)) = Inr []"
    by (simp add: look)
  show ?thesis
    by (intro conjI) (rule cnt len docs others look uniq)+
qed

text \<open>Deleting B from the seven books leaves six and no B; no book has the title Z.\<close>

theorem deleteByTitle_effect_witness:
  "length (filter (\<lambda>b. title b = ''B'') seven_books) \<le> 1
   \<and> fst (deleteByTitle ''B'' seven_books) = 1
   \<and> length (snd (deleteByTitle ''B'' seven_books)) = 6
   \<and> verifyDeletion ''B'' (snd (deleteByTitle ''B'' seven_books)) = Inr []
   \<and> fst (deleteByTitle ''Z'' seven_books) = 0
   \<and> length (snd (deleteByTitle ''Z'' seven_books)) = 7"
proof -
  have one: "length (filter (\<lambda>b. title b = ''B'') seven_books) \<le> 1"
    and inB: "''B'' \<in> title ` set seven_books"
    and outZ: "''Z'' \<notin> title ` set seven_books"
    and len: "length seven_books = 7"
    by (simp_all add: seven_books_def)
  from deleteByTitle_effect [of "''B''" seven_books]
  have cB: "fst (deleteByTitle ''B'' seven_books) = (if ''B'' \<in> title ` set seven_books then 1 else 0)"
    and lB: "length (snd (deleteByTitle ''B'' seven_books))
        + fst (deleteByTitle ''B'' seven_books) = length seven_books"
    and uB: "length (filter (\<lambda>b. title b = ''B'') seven_books) \<le> 1 \<longrightarrow>
        verifyDeletion ''B'' (snd (deleteByTitle ''B'' seven_books)) = Inr []"
    by blast+
  from deleteByTitle_effect [of "''Z''" seven_books]
  have cZ: "fst (deleteByTitle ''Z'' seven_books) = (if ''Z'' \<in> title ` set seven_books then 1 else 0)"
    and lZ: "length (snd (deleteByTitle ''Z'' seven_books))
        + fst (deleteByTitle ''Z'' seven_books) = length seven_books"
    by blast+
  from cB inB have "fst (deleteByTitle ''B'' seven_books) = 1" by simp
  moreover from cZ outZ have "fst (deleteByTitle ''Z'' seven_books) = 0" by simp
  moreover from uB one have "verifyDeletion ''B'' (snd (deleteByTitle ''B'' seven_books)) = Inr []"
    by blast
  ultimately show ?thesis
    using one lB lZ len by simp
qed

text \<open>
  The claim as written has the lookup empty after every delete. With two documents
  of the title, the delete statement of the script removes the first and the lookup
  returns the other.
\<close>

theorem deleteByTitle_lookup_counterexample:
  "script_delete two_copies = (1, [second_copy])
   \<and> deleteByTitle ''Rust and Roses'' two_copies = (1, [second_copy])
   \<and> verifyDeletion ''Rust and Roses'' (snd (deleteByTitle ''Rust and Roses'' two_copies))
       = Inr [second_copy]"
  by (simp add: script_delete_def deleteByTitle_def verifyDeletion_def toArray_def
      coll_find_def apply_limit_def two_copies_def first_copy_def second_copy_def)

end
